theory Spec2Isabelle
  imports Main
begin

section \<open>Two-dimensional arrays\<close>

text \<open>
  The notebook works on numpy arrays with two axes. An array is its shape together with
  its rows; the shape is kept apart from the rows because an array with no rows still has
  a column count, and broadcasting looks at it.
\<close>

record 'a ndarray =
  nrows :: nat
  ncols :: nat
  rows :: "'a list list"

text \<open>The arrays numpy can build: as many rows as the shape says, each of the given width.\<close>

definition wf_array :: "'a ndarray \<Rightarrow> bool" where
  "wf_array a \<longleftrightarrow> length (rows a) = nrows a \<and> list_all (\<lambda>r. length r = ncols a) (rows a)"

text \<open>\<^verbatim>\<open>np.array([[...], ...])\<close> on a non-empty list of rows.\<close>

definition array :: "'a list list \<Rightarrow> 'a ndarray" where
  "array rs = \<lparr>nrows = length rs, ncols = (case rs of [] \<Rightarrow> 0 | r # _ \<Rightarrow> length r), rows = rs\<rparr>"

text \<open>The cell \<^verbatim>\<open>a[i, j]\<close>, read where \<open>i < nrows a\<close> and \<open>j < ncols a\<close>.\<close>

definition cell :: "'a ndarray \<Rightarrow> nat \<Rightarrow> nat \<Rightarrow> 'a" where
  "cell a i j = rows a ! i ! j"

text \<open>\<^verbatim>\<open>a.astype('bool')\<close>: a number becomes \<open>True\<close> unless it is zero.\<close>

definition astype_bool :: "('a::zero) ndarray \<Rightarrow> bool ndarray" where
  "astype_bool a = \<lparr>nrows = nrows a, ncols = ncols a, rows = map (map (\<lambda>x. x \<noteq> 0)) (rows a)\<rparr>"

text \<open>\<^verbatim>\<open>a.sum()\<close> on a boolean array: the number of \<open>True\<close> cells.\<close>

definition np_sum :: "bool ndarray \<Rightarrow> nat" where
  "np_sum a = sum_list (map (\<lambda>r. length (filter (\<lambda>x. x) r)) (rows a))"

subsection \<open>Errors\<close>

text \<open>
  \<open>ValueError\<close> is what numpy raises when the operands of \<^verbatim>\<open>|\<close> cannot be broadcast
  together (the specification's ShapeMismatch); \<open>TypeError\<close> is what \<^verbatim>\<open>None | array\<close>
  raises. \<open>MissingFile\<close> and \<open>OverwriteDenied\<close> are the failures of the file collaborators.
\<close>

datatype error = ValueError | TypeError | MissingFile | OverwriteDenied

subsection \<open>The operator \<^verbatim>\<open>|\<close> on arrays\<close>

text \<open>
  numpy broadcasts the two operands to a common shape before it works cell by cell: along
  each axis the extents must be equal, or one of them must be 1, and an axis of extent 1 is
  repeated to the other operand's extent.
\<close>

definition broadcast_dim :: "nat \<Rightarrow> nat \<Rightarrow> nat option" where
  "broadcast_dim m n =
     (if m = n then Some m else if m = 1 then Some n else if n = 1 then Some m else None)"

definition stretch :: "nat \<Rightarrow> 'a list \<Rightarrow> 'a list" where
  "stretch n xs = (case xs of [x] \<Rightarrow> replicate n x | _ \<Rightarrow> xs)"

definition broadcast_to :: "'a ndarray \<Rightarrow> nat \<Rightarrow> nat \<Rightarrow> 'a ndarray" where
  "broadcast_to a r c = \<lparr>nrows = r, ncols = c, rows = stretch r (map (stretch c) (rows a))\<rparr>"

definition bitwise_or :: "bool ndarray \<Rightarrow> bool ndarray \<Rightarrow> error + bool ndarray" where
  "bitwise_or a b =
     (case broadcast_dim (nrows a) (nrows b) of
        None \<Rightarrow> Inl ValueError
      | Some r \<Rightarrow>
         (case broadcast_dim (ncols a) (ncols b) of
            None \<Rightarrow> Inl ValueError
          | Some c \<Rightarrow>
              Inr \<lparr>nrows = r, ncols = c,
                   rows = map2 (\<lambda>x y. map2 (\<or>) x y)
                            (rows (broadcast_to a r c)) (rows (broadcast_to b r c))\<rparr>))"

text \<open>
  Combining the masks: \<^verbatim>\<open>combined_mask = mask_ccdmask.data | mask_hot_pix.data\<close>, on the
  two static masks after their conversion to boolean. The result is what the notebook
  stores in its variable \<^verbatim>\<open>combined_mask\<close>.
\<close>

definition combine_masks :: "bool ndarray \<Rightarrow> bool ndarray \<Rightarrow> error + bool ndarray" where
  "combine_masks mask_ccdmask_data mask_hot_pix_data =
     bitwise_or mask_ccdmask_data mask_hot_pix_data"

section \<open>The loop over the science images\<close>

text \<open>A \<^verbatim>\<open>CCDData\<close> image: its pixel values and its mask, which may be \<^verbatim>\<open>None\<close>.\<close>

record 'a ccd =
  data :: "'a ndarray"
  mask :: "bool ndarray option"

text \<open>
  What the loop can observe and change: the files of the directory, the variable
  \<^verbatim>\<open>combined_mask\<close>, and the calls it has made so far to \<^verbatim>\<open>print\<close> and to
  \<^verbatim>\<open>ccd.write\<close>, in order.
\<close>

datatype event = Printed string | Wrote string bool

record 'a session =
  files :: "string \<rightharpoonup> 'a ccd"
  combined_mask :: "bool ndarray"
  trace :: "event list"

text \<open>
  Modelled from the spec: the persistence sink \<^verbatim>\<open>ccd.write(path, overwrite=...)\<close> belongs
  to the image library and is not part of the notebook. It stores the image at the file
  location, and fails with OverwriteDenied, storing nothing, when the file exists and
  overwriting was not requested.
\<close>

definition ccd_write :: "'a ccd \<Rightarrow> string \<Rightarrow> bool \<Rightarrow> 'a session \<Rightarrow> error option \<times> 'a session" where
  "ccd_write c path overwrite s =
     (let s1 = s\<lparr>trace := trace s @ [Wrote path overwrite]\<rparr>
      in if files s path \<noteq> None \<and> \<not> overwrite then (Some OverwriteDenied, s1)
         else (None, s1\<lparr>files := (files s)(path \<mapsto> c)\<rparr>))"

text \<open>
  \<^verbatim>\<open>overall_mask = new_ccd.mask | combined_mask\<close>. When the detector's result has no mask,
  numpy applies \<^verbatim>\<open>None | x\<close> to every cell \<open>x\<close> of the combined mask, which raises TypeError
  at the first cell; on a combined mask with no cell nothing is applied, and the result is
  the array of that shape with no cell.
\<close>

definition overall_mask :: "bool ndarray option \<Rightarrow> bool ndarray \<Rightarrow> error + bool ndarray" where
  "overall_mask new_ccd_mask combined =
     (case new_ccd_mask of
        None \<Rightarrow>
          (if nrows combined = 0 \<or> ncols combined = 0
           then Inr \<lparr>nrows = nrows combined, ncols = ncols combined,
                     rows = replicate (nrows combined) []\<rparr>
           else Inl TypeError)
      | Some crmask \<Rightarrow> bitwise_or crmask combined)"

text \<open>
  The value given to \<^verbatim>\<open>ccd.mask\<close>:
  \<^verbatim>\<open>
  # If there was already a mask, keep it.
  if ccd.mask is not None:
      ccd.mask = ccd.mask | overall_mask
  else:
      ccd.mask = overall_mask
  \<close>
\<close>

definition keep_mask :: "bool ndarray option \<Rightarrow> bool ndarray \<Rightarrow> error + bool ndarray" where
  "keep_mask ccd_mask overall =
     (case ccd_mask of
        Some m \<Rightarrow> bitwise_or m overall
      | None \<Rightarrow> Inr overall)"

text \<open>
  The assignment \<^verbatim>\<open>ccd.mask = value\<close> goes through the mask setter of \<^verbatim>\<open>CCDData\<close>, which
  raises ValueError for a mask whose shape is not the shape of the image's data and then
  leaves the image as it was.
\<close>

definition set_mask :: "'a ccd \<Rightarrow> bool ndarray \<Rightarrow> error + 'a ccd" where
  "set_mask c value =
     (if nrows value = nrows (data c) \<and> ncols value = ncols (data c)
      then Inr (c\<lparr>mask := Some value\<rparr>)
      else Inl ValueError)"

text \<open>
  One pass of the loop body for the file \<open>file_name\<close>. The collection reads the image from
  the directory when the loop reaches it (a file that is gone is MissingFile); the
  cosmic-ray detector \<open>lacosmic\<close> is the library call
  \<^verbatim>\<open>ccdp.cosmicray_lacosmic(ccd, readnoise=10, sigclip=8, verbose=True)\<close>, which returns a
  new image and leaves \<open>ccd\<close> as it is. An exception, also one of the mask setter, ends the
  pass before anything is written and leaves the session as it was at that point.
\<close>

definition loop_body :: "('a ccd \<Rightarrow> 'a ccd) \<Rightarrow> string \<Rightarrow> 'a session \<Rightarrow> error option \<times> 'a session" where
  "loop_body lacosmic file_name s =
     (case files s file_name of
        None \<Rightarrow> (Some MissingFile, s)
      | Some c \<Rightarrow>
          (let s1 = s\<lparr>trace := trace s @ [Printed (''Working on file '' @ file_name)]\<rparr>;
               new_ccd = lacosmic c
           in case overall_mask (mask new_ccd) (combined_mask s1) of
                Inl e \<Rightarrow> (Some e, s1)
              | Inr overall \<Rightarrow>
                  (case keep_mask (mask c) overall of
                     Inl e \<Rightarrow> (Some e, s1)
                   | Inr m \<Rightarrow>
                       (case set_mask c m of
                          Inl e \<Rightarrow> (Some e, s1)
                        | Inr c' \<Rightarrow> ccd_write c' file_name True s1))))"

text \<open>
  \<^verbatim>\<open>for ccd, file_name in ifc.ccds(imagetyp='light', return_fname=True)\<close>: the file names
  of the science images come from the collection, in its order; the first exception ends
  the loop.
\<close>

fun ccds_loop :: "('a ccd \<Rightarrow> 'a ccd) \<Rightarrow> string list \<Rightarrow> 'a session \<Rightarrow> error option \<times> 'a session" where
  "ccds_loop lacosmic [] s = (None, s)"
| "ccds_loop lacosmic (file_name # rest) s =
     (case loop_body lacosmic file_name s of
        (None, s') \<Rightarrow> ccds_loop lacosmic rest s'
      | (Some e, s') \<Rightarrow> (Some e, s'))"

text \<open>
  The shapes the data model asks for: the data of an image, its cosmic-ray mask, and the
  mask the image already has if it has one, are arrays of the shape of the combined static
  mask.
\<close>

definition same_shape :: "'a ndarray \<Rightarrow> 'b ndarray \<Rightarrow> bool" where
  "same_shape a b \<longleftrightarrow> nrows a = nrows b \<and> ncols a = ncols b"

definition mask_fits :: "bool ndarray \<Rightarrow> bool ndarray option \<Rightarrow> bool" where
  "mask_fits combined m = (case m of None \<Rightarrow> True | Some a \<Rightarrow> wf_array a \<and> same_shape a combined)"

definition processable :: "('a ccd \<Rightarrow> 'a ccd) \<Rightarrow> bool ndarray \<Rightarrow> 'a ccd \<Rightarrow> bool" where
  "processable lacosmic combined c \<longleftrightarrow>
     same_shape (data c) combined \<and>
     mask (lacosmic c) \<noteq> None \<and> mask_fits combined (mask (lacosmic c)) \<and> mask_fits combined (mask c)"

text \<open>The files a run has written, in order, read off the calls it made.\<close>

definition files_written :: "event list \<Rightarrow> string list" where
  "files_written evs = concat (map (\<lambda>e. case e of Wrote p ov \<Rightarrow> [p] | Printed msg \<Rightarrow> []) evs)"

text \<open>
  What the loop may change in a session: the masks of the images in the directory, and
  nothing else of them. No file appears or disappears, the pixel values of every image
  stay, and so does the variable \<^verbatim>\<open>combined_mask\<close>.
\<close>

definition only_masks_changed :: "'a session \<Rightarrow> 'a session \<Rightarrow> bool" where
  "only_masks_changed s s' \<longleftrightarrow>
     combined_mask s' = combined_mask s \<and>
     (\<forall>f. case files s' f of
            None \<Rightarrow> files s f = None
          | Some c' \<Rightarrow> (\<exists>c m. files s f = Some c \<and> c' = c\<lparr>mask := m\<rparr>))"

subsection \<open>The end-to-end scenario of the specification\<close>

text \<open>
  Static masks \<open>[[0,1],[0,0]]\<close> and \<open>[[0,0],[1,0]]\<close>, hence the combined mask
  \<open>[[0,1],[1,0]]\<close>; one science image without a mask, whose cosmic-ray mask is
  \<open>[[1,0],[0,0]]\<close>. The detector of the scenario also returns cleaned pixel values, which
  differ from the image's own.
\<close>

definition example_combined :: "bool ndarray" where
  "example_combined = array [[False, True], [True, False]]"

definition example_crmask :: "bool ndarray" where
  "example_crmask = array [[True, False], [False, False]]"

definition example_lacosmic :: "int ccd \<Rightarrow> int ccd" where
  "example_lacosmic c = \<lparr>data = array [[5, 7], [1, 2]], mask = Some example_crmask\<rparr>"

definition example_session :: "int session" where
  "example_session =
     \<lparr>files = [''science.fits'' \<mapsto> \<lparr>data = array [[900, 7], [1, 2]], mask = None\<rparr>],
      combined_mask = example_combined,
      trace = []\<rparr>"

text \<open>
  The second scenario: an image that already has the mask \<open>[[0,0],[0,1]]\<close>, and a detector
  that finds no cosmic ray; the final mask is \<open>[[0,1],[1,1]]\<close>.
\<close>

definition example_masked :: "int ccd" where
  "example_masked = \<lparr>data = array [[3, 4], [5, 6]], mask = Some (array [[False, False], [False, True]])\<rparr>"

definition example_masked_session :: "int session" where
  "example_masked_session =
     \<lparr>files = [''masked.fits'' \<mapsto> example_masked], combined_mask = example_combined, trace = []\<rparr>"

definition quiet_lacosmic :: "int ccd \<Rightarrow> int ccd" where
  "quiet_lacosmic c = \<lparr>data = data c, mask = Some (array [[False, False], [False, False]])\<rparr>"

section \<open>Properties of the operator\<close>

text \<open>On arrays of one shape nothing is stretched, and the result is built row by row.\<close>

lemma stretch_same: "length xs = n \<Longrightarrow> stretch n xs = xs"
  by (cases xs rule: list.exhaust; cases "tl xs") (auto simp: stretch_def)

lemma wf_arrayD:
  assumes "wf_array a"
  shows "length (rows a) = nrows a" and "\<And>i. i < nrows a \<Longrightarrow> length (rows a ! i) = ncols a"
  using assms by (auto simp: wf_array_def list_all_length)

lemma astype_bool_cell:
  assumes "wf_array a" "i < nrows a" "j < ncols a"
  shows "wf_array (astype_bool a)" and "cell (astype_bool a) i j \<longleftrightarrow> cell a i j \<noteq> 0"
  using assms wf_arrayD[of a]
  by (simp_all add: astype_bool_def wf_array_def cell_def list_all_iff)

lemma broadcast_to_same:
  assumes "wf_array a" "nrows a = r" "ncols a = c"
  shows "rows (broadcast_to a r c) = rows a"
proof -
  have "map (stretch c) (rows a) = rows a"
    using assms by (auto simp: wf_array_def list_all_iff stretch_same intro: map_idI)
  then show ?thesis
    using assms by (simp add: broadcast_to_def stretch_same wf_array_def)
qed

lemma bitwise_or_same_shape:
  assumes "wf_array a" "wf_array b" "nrows a = nrows b" "ncols a = ncols b"
  shows "bitwise_or a b =
    Inr \<lparr>nrows = nrows a, ncols = ncols a, rows = map2 (\<lambda>x y. map2 (\<or>) x y) (rows a) (rows b)\<rparr>"
  using assms broadcast_to_same[of a "nrows a" "ncols a"] broadcast_to_same[of b "nrows a" "ncols a"]
  by (simp add: bitwise_or_def broadcast_dim_def)

lemma cell_or_same_shape:
  assumes "wf_array a" "wf_array b" "nrows a = nrows b" "ncols a = ncols b"
    and "i < nrows a" "j < ncols a"
  shows "cell \<lparr>nrows = nrows a, ncols = ncols a,
               rows = map2 (\<lambda>x y. map2 (\<or>) x y) (rows a) (rows b)\<rparr> i j
         = (cell a i j \<or> cell b i j)"
  using assms wf_arrayD[of a] wf_arrayD[of b] by (simp add: cell_def)

lemma wf_or_rows:
  assumes "wf_array a" "wf_array b" "nrows a = nrows b" "ncols a = ncols b"
  shows "wf_array \<lparr>nrows = nrows a, ncols = ncols a,
                   rows = map2 (\<lambda>x y. map2 (\<or>) x y) (rows a) (rows b)\<rparr>"
  using assms by (auto simp: wf_array_def list_all_length)

lemma bitwise_or_cells:
  assumes "wf_array a" "wf_array b" "nrows a = nrows b" "ncols a = ncols b"
  shows "\<exists>c. bitwise_or a b = Inr c \<and> wf_array c \<and> nrows c = nrows a \<and> ncols c = ncols a \<and>
             (\<forall>i<nrows a. \<forall>j<ncols a. cell c i j = (cell a i j \<or> cell b i j))"
proof -
  let ?c = "\<lparr>nrows = nrows a, ncols = ncols a,
             rows = map2 (\<lambda>x y. map2 (\<or>) x y) (rows a) (rows b)\<rparr>"
  have "bitwise_or a b = Inr ?c"
    using assms by (rule bitwise_or_same_shape)
  moreover have "wf_array ?c"
    using assms by (rule wf_or_rows)
  moreover have "\<forall>i<nrows a. \<forall>j<ncols a. cell ?c i j = (cell a i j \<or> cell b i j)"
    using assms cell_or_same_shape[of a b] by blast
  ultimately show ?thesis by auto
qed

lemma array_eqI:
  fixes a b :: "'a ndarray"
  assumes "wf_array a" "wf_array b" "nrows a = nrows b" "ncols a = ncols b"
    and cells: "\<And>i j. i < nrows a \<Longrightarrow> j < ncols a \<Longrightarrow> cell a i j = cell b i j"
  shows "a = b"
proof -
  have "rows a = rows b"
  proof (rule nth_equalityI)
    show "length (rows a) = length (rows b)"
      using assms wf_arrayD(1) by metis
  next
    fix i assume "i < length (rows a)"
    then have i: "i < nrows a" using assms(1) by (simp add: wf_arrayD(1))
    show "rows a ! i = rows b ! i"
    proof (rule nth_equalityI)
      show "length (rows a ! i) = length (rows b ! i)"
        using i assms wf_arrayD(2)[of a i] wf_arrayD(2)[of b i] by simp
    next
      fix j assume "j < length (rows a ! i)"
      then have "j < ncols a" using i assms(1) by (simp add: wf_arrayD(2))
      then show "rows a ! i ! j = rows b ! i ! j"
        using cells[OF i] by (simp add: cell_def)
    qed
  qed
  then show ?thesis using assms(3,4) by simp
qed

lemma broadcast_dim_commute: "broadcast_dim m n = broadcast_dim n m"
  by (auto simp: broadcast_dim_def)

lemma map2_or_commute: "map2 (\<or>) xs ys = map2 (\<or>) ys xs"
proof (induction xs arbitrary: ys)
  case Nil
  then show ?case by simp
next
  case (Cons x xs)
  then show ?case by (cases ys) auto
qed

lemma rows_or_commute:
  "map2 (\<lambda>x y. map2 (\<or>) x y) xss yss = map2 (\<lambda>x y. map2 (\<or>) x y) yss xss"
proof (induction xss arbitrary: yss)
  case Nil
  then show ?case by simp
next
  case (Cons xs xss)
  then show ?case by (cases yss) (auto simp: map2_or_commute)
qed

lemma bitwise_or_commute: "bitwise_or a b = bitwise_or b a"
  unfolding bitwise_or_def
  by (simp add: broadcast_dim_commute[of "nrows a"] broadcast_dim_commute[of "ncols a"]
      rows_or_commute[of "rows (broadcast_to a _ _)"] split: option.splits)

lemma bitwise_or_assoc_same_shape:
  assumes "wf_array a" "wf_array b" "wf_array c"
    and "nrows a = nrows b" "ncols a = ncols b" "nrows b = nrows c" "ncols b = ncols c"
  shows "\<exists>bc ab r. bitwise_or b c = Inr bc \<and> bitwise_or a b = Inr ab \<and>
                   bitwise_or a bc = Inr r \<and> bitwise_or ab c = Inr r"
proof -
  obtain bc where bc: "bitwise_or b c = Inr bc" "wf_array bc" "nrows bc = nrows b" "ncols bc = ncols b"
    and bc_cells: "\<forall>i<nrows b. \<forall>j<ncols b. cell bc i j = (cell b i j \<or> cell c i j)"
    using bitwise_or_cells[of b c] assms by blast
  obtain ab where ab: "bitwise_or a b = Inr ab" "wf_array ab" "nrows ab = nrows a" "ncols ab = ncols a"
    and ab_cells: "\<forall>i<nrows a. \<forall>j<ncols a. cell ab i j = (cell a i j \<or> cell b i j)"
    using bitwise_or_cells[of a b] assms by blast
  obtain r where r: "bitwise_or a bc = Inr r" "wf_array r" "nrows r = nrows a" "ncols r = ncols a"
    and r_cells: "\<forall>i<nrows a. \<forall>j<ncols a. cell r i j = (cell a i j \<or> cell bc i j)"
    using bitwise_or_cells[of a bc] assms bc by auto
  obtain r' where r': "bitwise_or ab c = Inr r'" "wf_array r'" "nrows r' = nrows ab" "ncols r' = ncols ab"
    and r'_cells: "\<forall>i<nrows ab. \<forall>j<ncols ab. cell r' i j = (cell ab i j \<or> cell c i j)"
    using bitwise_or_cells[of ab c] assms ab by auto
  have "r = r'"
  proof (rule array_eqI)
    fix i j assume "i < nrows r" "j < ncols r"
    then have ij: "i < nrows a" "j < ncols a" using r by simp_all
    then show "cell r i j = cell r' i j"
      using r_cells r'_cells ab_cells bc_cells ab assms by auto
  qed (use r r' ab in simp_all)
  with bc ab r r' show ?thesis by blast
qed

lemma bitwise_or_absorb:
  assumes "wf_array m" "wf_array overall" "nrows m = nrows overall" "ncols m = ncols overall"
    and "bitwise_or m overall = Inr fm"
  shows "bitwise_or fm overall = Inr fm"
proof -
  obtain fm0 where fm0: "bitwise_or m overall = Inr fm0" "wf_array fm0"
      "nrows fm0 = nrows m" "ncols fm0 = ncols m"
    and fm0_cells: "\<forall>i<nrows m. \<forall>j<ncols m. cell fm0 i j = (cell m i j \<or> cell overall i j)"
    using bitwise_or_cells[OF assms(1-4)] by blast
  have fm: "fm = fm0" using assms(5) fm0(1) by simp
  obtain r where r: "bitwise_or fm overall = Inr r" "wf_array r"
      "nrows r = nrows fm" "ncols r = ncols fm"
    and r_cells: "\<forall>i<nrows fm. \<forall>j<ncols fm. cell r i j = (cell fm i j \<or> cell overall i j)"
    using bitwise_or_cells[of fm overall] fm fm0 assms by auto
  have "r = fm"
  proof (rule array_eqI)
    fix i j assume "i < nrows r" "j < ncols r"
    then have "i < nrows m" "j < ncols m" using r fm fm0 by simp_all
    then show "cell r i j = cell fm i j"
      using r_cells fm0_cells fm fm0 by auto
  qed (use r fm fm0 in simp_all)
  with r(1) show ?thesis by simp
qed

lemma bitwise_or_self:
  assumes "wf_array a"
  shows "bitwise_or a a = Inr a"
proof -
  obtain r where r: "bitwise_or a a = Inr r" "wf_array r" "nrows r = nrows a" "ncols r = ncols a"
    and r_cells: "\<forall>i<nrows a. \<forall>j<ncols a. cell r i j = (cell a i j \<or> cell a i j)"
    using bitwise_or_cells[of a a] assms by blast
  have "r = a"
    by (rule array_eqI) (use r r_cells assms in simp_all)
  with r(1) show ?thesis by simp
qed

lemma bitwise_or_fails_iff:
  "bitwise_or a b = Inl e \<longleftrightarrow>
     e = ValueError \<and> (broadcast_dim (nrows a) (nrows b) = None \<or> broadcast_dim (ncols a) (ncols b) = None)"
  by (auto simp: bitwise_or_def split: option.splits)

lemma broadcast_dim_None: "broadcast_dim m n = None \<longleftrightarrow> m \<noteq> n \<and> m \<noteq> 1 \<and> n \<noteq> 1"
  by (simp add: broadcast_dim_def)

subsection \<open>Counting the masked pixels\<close>

lemma count_or_left: "length xs = length ys \<Longrightarrow>
    length (filter (\<lambda>x. x) xs) \<le> length (filter (\<lambda>x. x) (map2 (\<or>) xs ys))"
  by (induction xs ys rule: list_induct2) auto

lemma sum_rows_or_left:
  assumes "length xss = length yss" "\<forall>i<length xss. length (xss ! i) = length (yss ! i)"
  shows "sum_list (map (\<lambda>r. length (filter (\<lambda>x. x) r)) xss)
       \<le> sum_list (map (\<lambda>r. length (filter (\<lambda>x. x) r)) (map2 (\<lambda>x y. map2 (\<or>) x y) xss yss))"
  using assms
proof (induction xss yss rule: list_induct2)
  case Nil
  then show ?case by simp
next
  case (Cons xs xss ys yss)
  have "length xs = length ys" using Cons.prems by auto
  then have h: "length (filter (\<lambda>x. x) xs) \<le> length (filter (\<lambda>x. x) (map2 (\<or>) xs ys))"
    by (rule count_or_left)
  have "\<forall>i<length xss. length (xss ! i) = length (yss ! i)"
    using Cons.prems by auto
  then show ?case using Cons.IH h by simp
qed

lemma np_sum_or_left:
  assumes "wf_array a" "wf_array b" "nrows a = nrows b" "ncols a = ncols b"
    and "bitwise_or a b = Inr c"
  shows "np_sum a \<le> np_sum c"
proof -
  have c: "c = \<lparr>nrows = nrows a, ncols = ncols a,
               rows = map2 (\<lambda>x y. map2 (\<or>) x y) (rows a) (rows b)\<rparr>"
    using assms bitwise_or_same_shape[of a b] by simp
  have "length (rows a) = length (rows b)"
    using assms by (simp add: wf_arrayD(1))
  moreover have "\<forall>i<length (rows a). length (rows a ! i) = length (rows b ! i)"
    using assms wf_arrayD[of a] wf_arrayD[of b] by simp
  ultimately show ?thesis
    unfolding np_sum_def c using sum_rows_or_left[of "rows a" "rows b"] by simp
qed

lemma np_sum_or_right:
  assumes "wf_array a" "wf_array b" "nrows a = nrows b" "ncols a = ncols b"
    and "bitwise_or a b = Inr c"
  shows "np_sum b \<le> np_sum c"
  using np_sum_or_left[of b a c] assms by (simp add: bitwise_or_commute[of b a])

section \<open>Properties of the loop\<close>

lemma only_masks_changedI:
  assumes "combined_mask s' = combined_mask s"
    and "\<And>f. files s' f = None \<Longrightarrow> files s f = None"
    and "\<And>f c'. files s' f = Some c' \<Longrightarrow> \<exists>c m. files s f = Some c \<and> c' = c\<lparr>mask := m\<rparr>"
  shows "only_masks_changed s s'"
  using assms by (simp add: only_masks_changed_def split: option.splits)

lemma only_masks_changed_refl: "only_masks_changed s s"
proof -
  have "\<exists>c m. files s f = Some c \<and> c' = c\<lparr>mask := m\<rparr>" if "files s f = Some c'" for f c'
  proof -
    have "c' = c'\<lparr>mask := mask c'\<rparr>" by simp
    with that show ?thesis by blast
  qed
  then show ?thesis
    by (simp add: only_masks_changed_def split: option.splits)
qed

lemma only_masks_changed_trans:
  assumes "only_masks_changed s s'" "only_masks_changed s' s''"
  shows "only_masks_changed s s''"
proof -
  have "\<exists>c m. files s f = Some c \<and> c'' = c\<lparr>mask := m\<rparr>" if "files s'' f = Some c''" for f c''
  proof -
    from assms(2) that obtain c' m' where c': "files s' f = Some c'" "c'' = c'\<lparr>mask := m'\<rparr>"
      by (auto simp: only_masks_changed_def split: option.splits dest!: spec[of _ f])
    from assms(1) c'(1) obtain c m where c: "files s f = Some c" "c' = c\<lparr>mask := m\<rparr>"
      by (auto simp: only_masks_changed_def split: option.splits dest!: spec[of _ f])
    have "c'' = c\<lparr>mask := m'\<rparr>" using c'(2) c(2) by simp
    with c(1) show ?thesis by blast
  qed
  moreover have "files s f = None" if "files s'' f = None" for f
  proof -
    from assms(2) that have "files s' f = None"
      by (auto simp: only_masks_changed_def split: option.splits dest!: spec[of _ f])
    with assms(1) show ?thesis
      by (auto simp: only_masks_changed_def split: option.splits dest!: spec[of _ f])
  qed
  moreover have "combined_mask s'' = combined_mask s"
    using assms by (simp add: only_masks_changed_def)
  ultimately show ?thesis
    by (simp add: only_masks_changed_def split: option.splits)
qed

lemma only_masks_changed_exists:
  assumes "only_masks_changed s s'"
  shows "files s' p \<noteq> None \<longleftrightarrow> files s p \<noteq> None"
  using assms by (auto simp: only_masks_changed_def split: option.splits dest!: spec[of _ p])

text \<open>What one pass does, case by case.\<close>

lemma ccd_write_overwrite:
  "ccd_write c path True s =
     (None, s\<lparr>trace := trace s @ [Wrote path True], files := (files s)(path \<mapsto> c)\<rparr>)"
  by (simp add: ccd_write_def Let_def)

lemma overall_mask_error:
  "overall_mask new_ccd_mask combined = Inl e \<Longrightarrow> e = ValueError \<or> e = TypeError"
  by (auto simp: overall_mask_def bitwise_or_fails_iff split: option.splits if_splits)

lemma keep_mask_error: "keep_mask ccd_mask overall = Inl e \<Longrightarrow> e = ValueError"
  by (auto simp: keep_mask_def bitwise_or_fails_iff split: option.splits)

lemma set_mask_cases:
  obtains (refused) "set_mask c m = Inl ValueError"
      "nrows m \<noteq> nrows (data c) \<or> ncols m \<noteq> ncols (data c)"
  | (set) "set_mask c m = Inr (c\<lparr>mask := Some m\<rparr>)"
      "nrows m = nrows (data c)" "ncols m = ncols (data c)"
  by (cases "nrows m = nrows (data c) \<and> ncols m = ncols (data c)") (auto simp: set_mask_def)

lemma loop_body_cases:
  obtains (missing) "files s f = None" "loop_body lac f s = (Some MissingFile, s)"
  | (failed) c e where "files s f = Some c"
      "loop_body lac f s = (Some e, s\<lparr>trace := trace s @ [Printed (''Working on file '' @ f)]\<rparr>)"
      "e = ValueError \<or> e = TypeError"
  | (written) c overall m where "files s f = Some c"
      "overall_mask (mask (lac c)) (combined_mask s) = Inr overall"
      "keep_mask (mask c) overall = Inr m"
      "nrows m = nrows (data c)" "ncols m = ncols (data c)"
      "loop_body lac f s =
         (None, s\<lparr>trace := trace s @ [Printed (''Working on file '' @ f), Wrote f True],
                   files := (files s)(f \<mapsto> c\<lparr>mask := Some m\<rparr>)\<rparr>)"
proof (cases "files s f")
  case None
  then show ?thesis using missing by (simp add: loop_body_def)
next
  case (Some c)
  show ?thesis
  proof (cases "overall_mask (mask (lac c)) (combined_mask s)")
    case (Inl e)
    then have "e = ValueError \<or> e = TypeError" by (rule overall_mask_error)
    then show ?thesis using failed[of c e] Some Inl by (simp add: loop_body_def Let_def)
  next
    case overall: (Inr overall)
    show ?thesis
    proof (cases "keep_mask (mask c) overall")
      case (Inl e)
      then have "e = ValueError" by (rule keep_mask_error)
      then show ?thesis
        using failed[of c e] Some overall Inl by (simp add: loop_body_def Let_def)
    next
      case m: (Inr m)
      show ?thesis
      proof (cases rule: set_mask_cases[where c=c and m=m])
        case refused
        then show ?thesis
          using failed[of c ValueError] Some overall m by (simp add: loop_body_def Let_def)
      next
        case set
        then show ?thesis
          using written[of c overall m] Some overall m
          by (simp add: loop_body_def Let_def ccd_write_overwrite)
      qed
    qed
  qed
qed

lemma loop_body_only_masks_changed: "only_masks_changed s (snd (loop_body lac f s))"
proof (cases rule: loop_body_cases[where s=s and f=f and lac=lac])
  case missing
  then show ?thesis by (simp add: only_masks_changed_refl)
next
  case (failed c e)
  then show ?thesis
    using only_masks_changed_refl[of s] by (simp add: only_masks_changed_def)
next
  case (written c overall m)
  let ?s' = "snd (loop_body lac f s)"
  have fs: "files ?s' = (files s)(f \<mapsto> c\<lparr>mask := Some m\<rparr>)"
    and cm: "combined_mask ?s' = combined_mask s"
    using written(6) by simp_all
  show ?thesis
  proof (rule only_masks_changedI)
    show "combined_mask ?s' = combined_mask s" by (rule cm)
  next
    fix g assume "files ?s' g = None"
    then show "files s g = None"
      unfolding fs by (cases "g = f") simp_all
  next
    fix g c' assume g: "files ?s' g = Some c'"
    show "\<exists>c0 m0. files s g = Some c0 \<and> c' = c0\<lparr>mask := m0\<rparr>"
    proof (cases "g = f")
      case True
      with g written(1) show ?thesis unfolding fs by auto
    next
      case False
      with g have "files s g = Some c'" unfolding fs by simp
      moreover have "c' = c'\<lparr>mask := mask c'\<rparr>" by simp
      ultimately show ?thesis by blast
    qed
  qed
qed

lemma ccds_loop_only_masks_changed: "only_masks_changed s (snd (ccds_loop lac names s))"
proof (induction names arbitrary: s)
  case Nil
  then show ?case by (simp add: only_masks_changed_refl)
next
  case (Cons f rest)
  obtain r s' where body: "loop_body lac f s = (r, s')" by (cases "loop_body lac f s")
  have step: "only_masks_changed s s'"
    using loop_body_only_masks_changed[of s lac f] body by simp
  show ?case
  proof (cases r)
    case None
    then show ?thesis
      using body step Cons.IH[of s'] by (auto intro: only_masks_changed_trans)
  next
    case (Some e)
    then show ?thesis using body step by simp
  qed
qed

lemma loop_body_detector_data:
  assumes "\<And>c. mask (lac' c) = mask (lac c)"
  shows "loop_body lac' f s = loop_body lac f s"
  using assms by (auto simp: loop_body_def Let_def split: option.splits)

lemma ccds_loop_detector_data:
  assumes "\<And>c. mask (lac' c) = mask (lac c)"
  shows "ccds_loop lac' names s = ccds_loop lac names s"
  using assms
  by (induction names arbitrary: s)
    (auto simp: loop_body_detector_data[of lac' lac] split: prod.splits option.splits)

lemma loop_body_trace:
  "\<exists>evs. trace (snd (loop_body lac f s)) = trace s @ evs \<and>
         (\<forall>p ov. Wrote p ov \<in> set evs \<longrightarrow> ov \<and> files s p \<noteq> None)"
proof (cases rule: loop_body_cases[where s=s and f=f and lac=lac])
  case missing
  then show ?thesis by simp
next
  case (failed c e)
  then show ?thesis by simp
next
  case (written c overall m)
  then show ?thesis by simp
qed

lemma loop_body_not_denied: "fst (loop_body lac f s) \<noteq> Some OverwriteDenied"
  by (cases rule: loop_body_cases[where s=s and f=f and lac=lac]) auto

lemma ccds_loop_trace:
  "\<exists>evs. trace (snd (ccds_loop lac names s)) = trace s @ evs \<and>
         (\<forall>p ov. Wrote p ov \<in> set evs \<longrightarrow> ov \<and> files s p \<noteq> None)"
proof (induction names arbitrary: s)
  case Nil
  then show ?case by simp
next
  case (Cons f rest)
  obtain r s1 where body: "loop_body lac f s = (r, s1)" by (cases "loop_body lac f s")
  from loop_body_trace[of lac f s] body
  obtain evs1 where evs1: "trace s1 = trace s @ evs1"
    "\<forall>p ov. Wrote p ov \<in> set evs1 \<longrightarrow> ov \<and> files s p \<noteq> None"
    by auto
  show ?case
  proof (cases r)
    case (Some e)
    then show ?thesis using body evs1 by auto
  next
    case None
    from Cons.IH[of s1]
    obtain evs2 where evs2: "trace (snd (ccds_loop lac rest s1)) = trace s1 @ evs2"
      "\<forall>p ov. Wrote p ov \<in> set evs2 \<longrightarrow> ov \<and> files s1 p \<noteq> None"
      by blast
    have "only_masks_changed s s1"
      using loop_body_only_masks_changed[of s lac f] body by simp
    then have same: "files s1 p \<noteq> None \<longleftrightarrow> files s p \<noteq> None" for p
      by (rule only_masks_changed_exists)
    have "trace (snd (ccds_loop lac (f # rest) s)) = trace s @ (evs1 @ evs2)"
      using body None evs1(1) evs2(1) by simp
    moreover have "\<forall>p ov. Wrote p ov \<in> set (evs1 @ evs2) \<longrightarrow> ov \<and> files s p \<noteq> None"
      using evs1(2) evs2(2) same by auto
    ultimately show ?thesis by blast
  qed
qed

lemma ccds_loop_not_denied: "fst (ccds_loop lac names s) \<noteq> Some OverwriteDenied"
proof (induction names arbitrary: s)
  case Nil
  then show ?case by simp
next
  case (Cons f rest)
  obtain r s1 where body: "loop_body lac f s = (r, s1)" by (cases "loop_body lac f s")
  show ?case
  proof (cases r)
    case None
    then show ?thesis using body Cons.IH[of s1] by simp
  next
    case (Some e)
    then show ?thesis using body loop_body_not_denied[of lac f s] by simp
  qed
qed

text \<open>With data and masks of the shape of the combined mask, no pass fails.\<close>

lemma merge_succeeds:
  assumes "wf_array combined" "wf_array crmask"
    and "nrows crmask = nrows combined" "ncols crmask = ncols combined"
    and "mask_fits combined ccd_mask"
  obtains overall fm where
    "overall_mask (Some crmask) combined = Inr overall" "wf_array overall"
    "nrows overall = nrows combined" "ncols overall = ncols combined"
    "keep_mask ccd_mask overall = Inr fm"
    "nrows fm = nrows combined" "ncols fm = ncols combined"
proof -
  obtain overall where ov: "bitwise_or crmask combined = Inr overall" "wf_array overall"
      "nrows overall = nrows combined" "ncols overall = ncols combined"
    using bitwise_or_cells[OF assms(2,1,3,4)] assms(3,4) by auto
  have "\<exists>fm. keep_mask ccd_mask overall = Inr fm \<and> nrows fm = nrows combined \<and>
          ncols fm = ncols combined"
  proof (cases ccd_mask)
    case None
    then show ?thesis using ov by (simp add: keep_mask_def)
  next
    case (Some m)
    then have "wf_array m" "nrows m = nrows overall" "ncols m = ncols overall"
      using assms(5) ov by (simp_all add: mask_fits_def same_shape_def)
    then show ?thesis
      using Some bitwise_or_cells[of m overall] ov(2,3,4) by (auto simp: keep_mask_def)
  qed
  with ov that show ?thesis by (auto simp: overall_mask_def)
qed

lemma loop_body_processable:
  assumes "files s f = Some c" "wf_array (combined_mask s)" "processable lac (combined_mask s) c"
  obtains overall fm where
    "overall_mask (mask (lac c)) (combined_mask s) = Inr overall"
    "keep_mask (mask c) overall = Inr fm"
    "loop_body lac f s =
       (None, s\<lparr>trace := trace s @ [Printed (''Working on file '' @ f), Wrote f True],
                 files := (files s)(f \<mapsto> c\<lparr>mask := Some fm\<rparr>)\<rparr>)"
proof -
  from assms(3) obtain crmask where cr: "mask (lac c) = Some crmask" "wf_array crmask"
      "nrows crmask = nrows (combined_mask s)" "ncols crmask = ncols (combined_mask s)"
    and pre: "mask_fits (combined_mask s) (mask c)"
    and shape: "nrows (data c) = nrows (combined_mask s)" "ncols (data c) = ncols (combined_mask s)"
    by (auto simp: processable_def mask_fits_def same_shape_def)
  from merge_succeeds[OF assms(2) cr(2,3,4) pre]
  obtain overall fm where ok: "overall_mask (Some crmask) (combined_mask s) = Inr overall"
      "keep_mask (mask c) overall = Inr fm"
      "nrows fm = nrows (combined_mask s)" "ncols fm = ncols (combined_mask s)"
    by blast
  have "set_mask c fm = Inr (c\<lparr>mask := Some fm\<rparr>)"
    using ok(3,4) shape by (simp add: set_mask_def)
  then have "loop_body lac f s =
       (None, s\<lparr>trace := trace s @ [Printed (''Working on file '' @ f), Wrote f True],
                 files := (files s)(f \<mapsto> c\<lparr>mask := Some fm\<rparr>)\<rparr>)"
    using assms(1) cr(1) ok(1,2) by (simp add: loop_body_def Let_def ccd_write_overwrite)
  with ok cr(1) that show ?thesis by simp
qed

lemma files_written_append: "files_written (xs @ ys) = files_written xs @ files_written ys"
  by (simp add: files_written_def)

text \<open>
  A run writes the files of a prefix of the names, each with its final mask, and stops at
  the first pass that fails.
\<close>

lemma ccds_loop_run:
  assumes "distinct names" "ccds_loop lac names s = (r, s')"
  shows "\<exists>k evs. k \<le> length names \<and> (r = None \<longleftrightarrow> k = length names) \<and>
           trace s' = trace s @ evs \<and> files_written evs = take k names \<and>
           combined_mask s' = combined_mask s \<and>
           (\<forall>g. g \<notin> set (take k names) \<longrightarrow> files s' g = files s g) \<and>
           (\<forall>f\<in>set (take k names). \<exists>c overall fm. files s f = Some c \<and>
               overall_mask (mask (lac c)) (combined_mask s) = Inr overall \<and>
               keep_mask (mask c) overall = Inr fm \<and>
               nrows fm = nrows (data c) \<and> ncols fm = ncols (data c) \<and>
               files s' f = Some (c\<lparr>mask := Some fm\<rparr>))"
  using assms
proof (induction names arbitrary: s)
  case Nil
  then show ?case by (simp add: files_written_def)
next
  case (Cons f rest)
  have f_rest: "f \<notin> set rest" "distinct rest" using Cons.prems(1) by simp_all
  let ?P = "\<lambda>k evs. k \<le> length (f # rest) \<and> (r = None \<longleftrightarrow> k = length (f # rest)) \<and>
           trace s' = trace s @ evs \<and> files_written evs = take k (f # rest) \<and>
           combined_mask s' = combined_mask s \<and>
           (\<forall>g. g \<notin> set (take k (f # rest)) \<longrightarrow> files s' g = files s g) \<and>
           (\<forall>f\<in>set (take k (f # rest)). \<exists>c overall fm. files s f = Some c \<and>
               overall_mask (mask (lac c)) (combined_mask s) = Inr overall \<and>
               keep_mask (mask c) overall = Inr fm \<and>
               nrows fm = nrows (data c) \<and> ncols fm = ncols (data c) \<and>
               files s' f = Some (c\<lparr>mask := Some fm\<rparr>))"
  show ?case
  proof (cases rule: loop_body_cases[where s=s and f=f and lac=lac])
    case missing
    then have "r = Some MissingFile" "s' = s" using Cons.prems(2) by simp_all
    then have "?P 0 []" by (simp add: files_written_def)
    then show ?thesis by blast
  next
    case (failed c e)
    then have "r = Some e" "s' = s\<lparr>trace := trace s @ [Printed (''Working on file '' @ f)]\<rparr>"
      using Cons.prems(2) by simp_all
    then have "?P 0 [Printed (''Working on file '' @ f)]" by (simp add: files_written_def)
    then show ?thesis by blast
  next
    case (written c overall fm)
    define s1 where "s1 = s\<lparr>trace := trace s @ [Printed (''Working on file '' @ f), Wrote f True],
                 files := (files s)(f \<mapsto> c\<lparr>mask := Some fm\<rparr>)\<rparr>"
    have s1: "combined_mask s1 = combined_mask s" "files s1 f = Some (c\<lparr>mask := Some fm\<rparr>)"
      "\<And>g. g \<noteq> f \<Longrightarrow> files s1 g = files s g"
      "trace s1 = trace s @ [Printed (''Working on file '' @ f), Wrote f True]"
      by (simp_all add: s1_def)
    have run: "ccds_loop lac rest s1 = (r, s')"
      using Cons.prems(2) written(6) by (simp add: s1_def)
    from Cons.IH[OF f_rest(2) run]
    obtain k evs where ih: "k \<le> length rest" "r = None \<longleftrightarrow> k = length rest"
      "trace s' = trace s1 @ evs" "files_written evs = take k rest"
      "combined_mask s' = combined_mask s1"
      "\<forall>g. g \<notin> set (take k rest) \<longrightarrow> files s' g = files s1 g"
      "\<forall>g\<in>set (take k rest). \<exists>c overall fm. files s1 g = Some c \<and>
             overall_mask (mask (lac c)) (combined_mask s1) = Inr overall \<and>
             keep_mask (mask c) overall = Inr fm \<and>
             nrows fm = nrows (data c) \<and> ncols fm = ncols (data c) \<and>
             files s' g = Some (c\<lparr>mask := Some fm\<rparr>)"
      by blast
    let ?evs = "[Printed (''Working on file '' @ f), Wrote f True] @ evs"
    have f_take: "f \<notin> set (take k rest)"
      using f_rest(1) by (auto dest: in_set_takeD)
    have tr: "trace s' = trace s @ ?evs" using ih(3) s1(4) by simp
    have wr: "files_written ?evs = take (Suc k) (f # rest)"
      using ih(4) by (simp add: files_written_def)
    have other: "\<forall>g. g \<notin> set (take (Suc k) (f # rest)) \<longrightarrow> files s' g = files s g"
      using ih(6) s1(3) by simp
    have head: "files s' f = Some (c\<lparr>mask := Some fm\<rparr>)"
      using ih(6) f_take s1(2) by simp
    have tail: "\<exists>c overall fm. files s g = Some c \<and>
               overall_mask (mask (lac c)) (combined_mask s) = Inr overall \<and>
               keep_mask (mask c) overall = Inr fm \<and>
               nrows fm = nrows (data c) \<and> ncols fm = ncols (data c) \<and>
               files s' g = Some (c\<lparr>mask := Some fm\<rparr>)" if "g \<in> set (take k rest)" for g
    proof -
      have gf: "g \<noteq> f" using that f_take by auto
      from ih(7) that obtain c0 ov0 fm0 where "files s1 g = Some c0"
        "overall_mask (mask (lac c0)) (combined_mask s1) = Inr ov0"
        "keep_mask (mask c0) ov0 = Inr fm0"
        "nrows fm0 = nrows (data c0)" "ncols fm0 = ncols (data c0)"
        "files s' g = Some (c0\<lparr>mask := Some fm0\<rparr>)"
        by blast
      then show ?thesis using s1(1) s1(3)[OF gf] by auto
    qed
    have all: "\<forall>g\<in>set (take (Suc k) (f # rest)). \<exists>c overall fm. files s g = Some c \<and>
               overall_mask (mask (lac c)) (combined_mask s) = Inr overall \<and>
               keep_mask (mask c) overall = Inr fm \<and>
               nrows fm = nrows (data c) \<and> ncols fm = ncols (data c) \<and>
               files s' g = Some (c\<lparr>mask := Some fm\<rparr>)"
      using written(1-5) head tail by auto
    have "?P (Suc k) ?evs"
      using ih(1,2,5) s1(1) tr wr other all by simp
    then show ?thesis by blast
  qed
qed

lemma ccds_loop_processable:
  assumes "wf_array (combined_mask s)"
    and "\<forall>f\<in>set names. \<exists>c. files s f = Some c \<and> processable lac (combined_mask s) c"
    and "distinct names"
  shows "\<exists>s'. ccds_loop lac names s = (None, s')"
  using assms
proof (induction names arbitrary: s)
  case Nil
  then show ?case by simp
next
  case (Cons f rest)
  from Cons.prems(2) obtain c where c: "files s f = Some c" "processable lac (combined_mask s) c"
    by auto
  from loop_body_processable[OF c(1) Cons.prems(1) c(2)]
  obtain overall fm where step:
    "loop_body lac f s =
       (None, s\<lparr>trace := trace s @ [Printed (''Working on file '' @ f), Wrote f True],
                 files := (files s)(f \<mapsto> c\<lparr>mask := Some fm\<rparr>)\<rparr>)"
    by blast
  define s1 where "s1 = s\<lparr>trace := trace s @ [Printed (''Working on file '' @ f), Wrote f True],
                 files := (files s)(f \<mapsto> c\<lparr>mask := Some fm\<rparr>)\<rparr>"
  have cm: "combined_mask s1 = combined_mask s" by (simp add: s1_def)
  have "\<exists>c'. files s1 g = Some c' \<and> processable lac (combined_mask s1) c'" if "g \<in> set rest" for g
  proof -
    have "g \<noteq> f" using that Cons.prems(3) by auto
    then show ?thesis using Cons.prems(2) that cm by (simp add: s1_def)
  qed
  then have "\<exists>s'. ccds_loop lac rest s1 = (None, s')"
    using Cons.IH[of s1] Cons.prems(1,3) cm by simp
  then show ?case using step by (simp add: s1_def)
qed

lemma example_run:
  "ccds_loop example_lacosmic [''science.fits''] example_session =
     (None, \<lparr>files = [''science.fits'' \<mapsto>
                \<lparr>data = array [[900, 7], [1, 2]], mask = Some (array [[True, True], [True, False]])\<rparr>],
             combined_mask = example_combined,
             trace = [Printed ''Working on file science.fits'', Wrote ''science.fits'' True]\<rparr>)"
  by (simp add: example_session_def example_lacosmic_def example_crmask_def example_combined_def
      loop_body_def overall_mask_def keep_mask_def set_mask_def ccd_write_def bitwise_or_def
      broadcast_dim_def broadcast_to_def stretch_def array_def Let_def)

lemma example_failing_run:
  "ccds_loop example_lacosmic [''science.fits'', ''gone.fits''] example_session =
     (Some MissingFile,
      \<lparr>files = [''science.fits'' \<mapsto>
                \<lparr>data = array [[900, 7], [1, 2]], mask = Some (array [[True, True], [True, False]])\<rparr>],
       combined_mask = example_combined,
       trace = [Printed ''Working on file science.fits'', Wrote ''science.fits'' True]\<rparr>)"
  by (simp add: example_session_def example_lacosmic_def example_crmask_def example_combined_def
      loop_body_def overall_mask_def keep_mask_def set_mask_def ccd_write_def bitwise_or_def
      broadcast_dim_def broadcast_to_def stretch_def array_def Let_def)

lemma example_processable:
  "processable example_lacosmic (combined_mask example_session)
     \<lparr>data = array [[900, 7], [1, 2]], mask = None\<rparr>"
  by (simp add: processable_def mask_fits_def same_shape_def wf_array_def example_session_def
      example_lacosmic_def example_crmask_def example_combined_def array_def)

section \<open>The claims\<close>

text \<open>
  C1. The combined static mask is the cell-wise logical OR of the two static masks: for
  boolean grids of one shape the combination succeeds, has that shape, and is true at
  \<open>[i, j]\<close> exactly when one of the two masks is.
\<close>

theorem combine_masks_is_or:
  assumes "wf_array a" "wf_array b" "nrows a = nrows b" "ncols a = ncols b"
  shows "\<exists>c. combine_masks a b = Inr c \<and> wf_array c \<and> nrows c = nrows a \<and> ncols c = ncols a \<and>
             (\<forall>i<nrows a. \<forall>j<ncols a. cell c i j = (cell a i j \<or> cell b i j))"
  unfolding combine_masks_def using assms by (rule bitwise_or_cells)

theorem combine_masks_is_or_witness:
  "wf_array (array [[False, True], [False, False]]) \<and>
   wf_array (array [[False, False], [True, False]]) \<and>
   nrows (array [[False, True], [False, False]]) = nrows (array [[False, False], [True, False]]) \<and>
   ncols (array [[False, True], [False, False]]) = ncols (array [[False, False], [True, False]]) \<and>
   (\<exists>c. combine_masks (array [[False, True], [False, False]])
          (array [[False, False], [True, False]]) = Inr c \<and>
        cell c 0 1 \<and> cell c 1 0 \<and> \<not> cell c 0 0 \<and> \<not> cell c 1 1)"
proof -
  let ?a = "array [[False, True], [False, False]]"
  let ?b = "array [[False, False], [True, False]]"
  have h: "wf_array ?a" "wf_array ?b" "nrows ?a = nrows ?b" "ncols ?a = ncols ?b"
    by (simp_all add: wf_array_def array_def)
  from combine_masks_is_or[OF h] obtain c where c: "combine_masks ?a ?b = Inr c"
    and cells: "\<forall>i<nrows ?a. \<forall>j<ncols ?a. cell c i j = (cell ?a i j \<or> cell ?b i j)"
    by blast
  have "cell c 0 1" "cell c 1 0" "\<not> cell c 0 0" "\<not> cell c 1 1"
    using cells by (simp_all add: array_def cell_def)
  with h c show ?thesis by blast
qed

text \<open>
  C2. The final mask of every image the loop has processed. Over distinct file names, a
  run writes the files of a prefix of the names, in their order, and leaves every other
  file as it was; the prefix is the whole list exactly when the run ends without an
  exception. Every image written, also in a run that fails at a later image, has the mask
  \<open>crmask | combined_mask\<close> when it had none, and \<open>mask | (crmask | combined_mask)\<close> when it
  had the mask \<open>mask\<close>. (A detector result without a mask passes only on a combined mask with
  no cell, and the grid with no cell then stands for \<open>crmask | combined_mask\<close>.) The run ends
  without an exception whenever the data and the masks involved are grids of the shape of
  the combined mask. In the scenario of the specification the final mask is
  \<open>[[1,1],[1,0]]\<close>.
\<close>

theorem ccds_loop_final_masks:
  assumes "distinct names" "ccds_loop lac names s = (r, s')"
  shows "(\<exists>k evs. k \<le> length names \<and> (r = None \<longleftrightarrow> k = length names) \<and>
            trace s' = trace s @ evs \<and> files_written evs = take k names \<and>
            (\<forall>g. g \<notin> set (take k names) \<longrightarrow> files s' g = files s g) \<and>
            (\<forall>f\<in>set (take k names). \<exists>c overall.
               files s f = Some c \<and>
               (case mask (lac c) of
                  Some crmask \<Rightarrow> bitwise_or crmask (combined_mask s) = Inr overall
                | None \<Rightarrow>
                    (nrows (combined_mask s) = 0 \<or> ncols (combined_mask s) = 0) \<and>
                    overall = \<lparr>nrows = nrows (combined_mask s), ncols = ncols (combined_mask s),
                               rows = replicate (nrows (combined_mask s)) []\<rparr>) \<and>
               (case mask c of
                  None \<Rightarrow> files s' f = Some (c\<lparr>mask := Some overall\<rparr>)
                | Some m \<Rightarrow> \<exists>fm. bitwise_or m overall = Inr fm \<and>
                             files s' f = Some (c\<lparr>mask := Some fm\<rparr>)))) \<and>
         (wf_array (combined_mask s) \<and>
          (\<forall>f\<in>set names. \<exists>c. files s f = Some c \<and> processable lac (combined_mask s) c) \<longrightarrow>
            r = None) \<and>
         map_option mask
           (files (snd (ccds_loop example_lacosmic [''science.fits''] example_session))
              ''science.fits'')
           = Some (Some (array [[True, True], [True, False]]))"
proof -
  from ccds_loop_run[OF assms]
  obtain k evs where k: "k \<le> length names" "r = None \<longleftrightarrow> k = length names"
    "trace s' = trace s @ evs" "files_written evs = take k names"
    "\<forall>g. g \<notin> set (take k names) \<longrightarrow> files s' g = files s g"
    and each: "\<forall>f\<in>set (take k names). \<exists>c overall fm. files s f = Some c \<and>
               overall_mask (mask (lac c)) (combined_mask s) = Inr overall \<and>
               keep_mask (mask c) overall = Inr fm \<and>
               nrows fm = nrows (data c) \<and> ncols fm = ncols (data c) \<and>
               files s' f = Some (c\<lparr>mask := Some fm\<rparr>)"
    by blast
  have final: "\<exists>c overall.
           files s f = Some c \<and>
           (case mask (lac c) of
              Some crmask \<Rightarrow> bitwise_or crmask (combined_mask s) = Inr overall
            | None \<Rightarrow>
                (nrows (combined_mask s) = 0 \<or> ncols (combined_mask s) = 0) \<and>
                overall = \<lparr>nrows = nrows (combined_mask s), ncols = ncols (combined_mask s),
                           rows = replicate (nrows (combined_mask s)) []\<rparr>) \<and>
           (case mask c of
              None \<Rightarrow> files s' f = Some (c\<lparr>mask := Some overall\<rparr>)
            | Some m \<Rightarrow> \<exists>fm. bitwise_or m overall = Inr fm \<and>
                         files s' f = Some (c\<lparr>mask := Some fm\<rparr>))"
    if f: "f \<in> set (take k names)" for f
  proof -
    from each f obtain c overall fm where c: "files s f = Some c"
      "overall_mask (mask (lac c)) (combined_mask s) = Inr overall"
      "keep_mask (mask c) overall = Inr fm" "files s' f = Some (c\<lparr>mask := Some fm\<rparr>)"
      by blast
    have "case mask (lac c) of
              Some crmask \<Rightarrow> bitwise_or crmask (combined_mask s) = Inr overall
            | None \<Rightarrow>
                (nrows (combined_mask s) = 0 \<or> ncols (combined_mask s) = 0) \<and>
                overall = \<lparr>nrows = nrows (combined_mask s), ncols = ncols (combined_mask s),
                           rows = replicate (nrows (combined_mask s)) []\<rparr>"
      using c(2) by (auto simp: overall_mask_def split: option.splits if_splits)
    moreover have "case mask c of
              None \<Rightarrow> files s' f = Some (c\<lparr>mask := Some overall\<rparr>)
            | Some m \<Rightarrow> \<exists>fm. bitwise_or m overall = Inr fm \<and>
                         files s' f = Some (c\<lparr>mask := Some fm\<rparr>)"
      using c(3,4) by (auto simp: keep_mask_def split: option.splits)
    ultimately show ?thesis using c(1) by blast
  qed
  have total: "r = None"
    if "wf_array (combined_mask s)"
      "\<forall>f\<in>set names. \<exists>c. files s f = Some c \<and> processable lac (combined_mask s) c"
    using ccds_loop_processable[OF that assms(1)] assms(2) by auto
  have ex: "map_option mask
           (files (snd (ccds_loop example_lacosmic [''science.fits''] example_session))
              ''science.fits'')
           = Some (Some (array [[True, True], [True, False]]))"
    by (subst example_run) simp
  from k final have "\<exists>k evs. k \<le> length names \<and> (r = None \<longleftrightarrow> k = length names) \<and>
            trace s' = trace s @ evs \<and> files_written evs = take k names \<and>
            (\<forall>g. g \<notin> set (take k names) \<longrightarrow> files s' g = files s g) \<and>
            (\<forall>f\<in>set (take k names). \<exists>c overall.
               files s f = Some c \<and>
               (case mask (lac c) of
                  Some crmask \<Rightarrow> bitwise_or crmask (combined_mask s) = Inr overall
                | None \<Rightarrow>
                    (nrows (combined_mask s) = 0 \<or> ncols (combined_mask s) = 0) \<and>
                    overall = \<lparr>nrows = nrows (combined_mask s), ncols = ncols (combined_mask s),
                               rows = replicate (nrows (combined_mask s)) []\<rparr>) \<and>
               (case mask c of
                  None \<Rightarrow> files s' f = Some (c\<lparr>mask := Some overall\<rparr>)
                | Some m \<Rightarrow> \<exists>fm. bitwise_or m overall = Inr fm \<and>
                             files s' f = Some (c\<lparr>mask := Some fm\<rparr>)))"
    by blast
  with total ex show ?thesis by blast
qed

theorem ccds_loop_final_masks_witness:
  "distinct [''science.fits''] \<and> wf_array (combined_mask example_session) \<and>
   (\<exists>c. files example_session ''science.fits'' = Some c \<and>
        processable example_lacosmic (combined_mask example_session) c) \<and>
   fst (ccds_loop example_lacosmic [''science.fits''] example_session) = None \<and>
   distinct [''science.fits'', ''gone.fits''] \<and>
   (\<exists>s'. ccds_loop example_lacosmic [''science.fits'', ''gone.fits''] example_session
            = (Some MissingFile, s') \<and>
        files s' ''science.fits''
          = Some \<lparr>data = array [[900, 7], [1, 2]],
                   mask = Some (array [[True, True], [True, False]])\<rparr>)"
proof -
  let ?sci = "''science.fits''"
  let ?names = "[''science.fits'', ''gone.fits'']"
  have h1: "distinct [?sci]" by simp
  have h2: "wf_array (combined_mask example_session)"
    by (simp add: example_session_def example_combined_def wf_array_def array_def)
  have h3: "\<forall>f\<in>set [?sci]. \<exists>c. files example_session f = Some c \<and>
        processable example_lacosmic (combined_mask example_session) c"
    using example_processable by (simp add: example_session_def)
  have run1: "ccds_loop example_lacosmic [?sci] example_session
      = (fst (ccds_loop example_lacosmic [?sci] example_session),
         snd (ccds_loop example_lacosmic [?sci] example_session))"
    by simp
  from ccds_loop_final_masks[OF h1 run1] h2 h3
  have ok: "fst (ccds_loop example_lacosmic [?sci] example_session) = None"
    by blast
  have h4: "distinct ?names" by simp
  obtain s' where run2: "ccds_loop example_lacosmic ?names example_session = (Some MissingFile, s')"
    and tr: "trace s' = [Printed ''Working on file science.fits'', Wrote ?sci True]"
    using example_failing_run by simp
  from ccds_loop_final_masks[OF h4 run2]
  obtain k evs where evs: "trace s' = trace example_session @ evs"
    "files_written evs = take k ?names"
    and each: "\<forall>f\<in>set (take k ?names). \<exists>c overall.
               files example_session f = Some c \<and>
               (case mask (example_lacosmic c) of
                  Some crmask \<Rightarrow> bitwise_or crmask (combined_mask example_session) = Inr overall
                | None \<Rightarrow>
                    (nrows (combined_mask example_session) = 0 \<or>
                     ncols (combined_mask example_session) = 0) \<and>
                    overall = \<lparr>nrows = nrows (combined_mask example_session),
                               ncols = ncols (combined_mask example_session),
                               rows = replicate (nrows (combined_mask example_session)) []\<rparr>) \<and>
               (case mask c of
                  None \<Rightarrow> files s' f = Some (c\<lparr>mask := Some overall\<rparr>)
                | Some m \<Rightarrow> \<exists>fm. bitwise_or m overall = Inr fm \<and>
                             files s' f = Some (c\<lparr>mask := Some fm\<rparr>))"
    by blast
  have "evs = [Printed ''Working on file science.fits'', Wrote ?sci True]"
    using evs(1) tr by (simp add: example_session_def)
  then have "take k ?names = [?sci]"
    using evs(2) by (simp add: files_written_def)
  then have "?sci \<in> set (take k ?names)" by simp
  from bspec[OF each this] obtain c overall where
    c: "files example_session ?sci = Some c"
    and ov: "case mask (example_lacosmic c) of
                  Some crmask \<Rightarrow> bitwise_or crmask (combined_mask example_session) = Inr overall
                | None \<Rightarrow>
                    (nrows (combined_mask example_session) = 0 \<or>
                     ncols (combined_mask example_session) = 0) \<and>
                    overall = \<lparr>nrows = nrows (combined_mask example_session),
                               ncols = ncols (combined_mask example_session),
                               rows = replicate (nrows (combined_mask example_session)) []\<rparr>"
    and fin: "case mask c of
       None \<Rightarrow> files s' ?sci = Some (c\<lparr>mask := Some overall\<rparr>)
     | Some m \<Rightarrow> \<exists>fm. bitwise_or m overall = Inr fm \<and>
                  files s' ?sci = Some (c\<lparr>mask := Some fm\<rparr>)"
    by blast
  have c_eq: "c = \<lparr>data = array [[900, 7], [1, 2]], mask = None\<rparr>"
    using c by (simp add: example_session_def)
  have "bitwise_or example_crmask (combined_mask example_session) = Inr overall"
    using ov by (simp add: example_lacosmic_def)
  then have "overall = array [[True, True], [True, False]]"
    by (simp add: example_session_def example_combined_def example_crmask_def bitwise_or_def
        broadcast_dim_def broadcast_to_def stretch_def array_def)
  with fin c_eq have "files s' ?sci
          = Some \<lparr>data = array [[900, 7], [1, 2]],
                   mask = Some (array [[True, True], [True, False]])\<rparr>"
    by simp
  with run2 have "\<exists>s'. ccds_loop example_lacosmic ?names example_session = (Some MissingFile, s') \<and>
        files s' ?sci
          = Some \<lparr>data = array [[900, 7], [1, 2]],
                   mask = Some (array [[True, True], [True, False]])\<rparr>"
    by blast
  moreover have "\<exists>c. files example_session ?sci = Some c \<and>
        processable example_lacosmic (combined_mask example_session) c"
    using h3 by simp
  ultimately show ?thesis using h1 h2 h4 ok by blast
qed

text \<open>
  C3. Nothing is overwritten silently. Writing to a file that exists without asking to
  overwrite fails with OverwriteDenied and leaves the files as they were; every call of
  \<^verbatim>\<open>ccd.write\<close> the loop makes asks to overwrite, and goes to a file that exists; so the
  loop never ends in OverwriteDenied.
\<close>

theorem overwrite_is_explicit:
  "(files s path \<noteq> None \<longrightarrow>
      ccd_write c path False s = (Some OverwriteDenied, s\<lparr>trace := trace s @ [Wrote path False]\<rparr>)) \<and>
   (\<exists>evs. trace (snd (ccds_loop lac names s)) = trace s @ evs \<and>
          (\<forall>p ov. Wrote p ov \<in> set evs \<longrightarrow> ov \<and> files s p \<noteq> None)) \<and>
   fst (ccds_loop lac names s) \<noteq> Some OverwriteDenied"
  using ccds_loop_trace[of lac names s] ccds_loop_not_denied[of lac names s]
  by (simp add: ccd_write_def Let_def)

theorem overwrite_is_explicit_witness:
  "files example_session ''science.fits'' \<noteq> None \<and>
   fst (ccd_write \<lparr>data = array [[0, 0], [0, 0]], mask = None\<rparr> ''science.fits'' False example_session)
     = Some OverwriteDenied \<and>
   files (snd (ccd_write \<lparr>data = array [[0, 0], [0, 0]], mask = None\<rparr> ''science.fits'' False
                 example_session))
     = files example_session \<and>
   Wrote ''science.fits'' True
     \<in> set (trace (snd (ccds_loop example_lacosmic [''science.fits''] example_session))) \<and>
   Wrote ''science.fits'' False
     \<notin> set (trace (snd (ccds_loop example_lacosmic [''science.fits''] example_session)))"
proof -
  have ex: "files example_session ''science.fits'' \<noteq> None"
    by (simp add: example_session_def)
  have tr: "trace example_session = []" by (simp add: example_session_def)
  note inst = overwrite_is_explicit[of example_session "''science.fits''"
      "\<lparr>data = array [[0, 0], [0, 0]], mask = None\<rparr>" example_lacosmic "[''science.fits'']"]
  from inst ex have denied:
    "ccd_write \<lparr>data = array [[0, 0], [0, 0]], mask = None\<rparr> ''science.fits'' False example_session
       = (Some OverwriteDenied,
          example_session\<lparr>trace := trace example_session @ [Wrote ''science.fits'' False]\<rparr>)"
    by blast
  from inst obtain evs where
    evs: "trace (snd (ccds_loop example_lacosmic [''science.fits''] example_session))
            = trace example_session @ evs"
    "\<forall>p ov. Wrote p ov \<in> set evs \<longrightarrow> ov \<and> files example_session p \<noteq> None"
    by blast
  have no: "Wrote ''science.fits'' False
     \<notin> set (trace (snd (ccds_loop example_lacosmic [''science.fits''] example_session)))"
    using evs tr by auto
  have yes: "Wrote ''science.fits'' True
     \<in> set (trace (snd (ccds_loop example_lacosmic [''science.fits''] example_session)))"
    by (subst example_run) simp
  show ?thesis using ex denied no yes by simp
qed

text \<open>
  C4, as the code has it. Combining two masks fails, with numpy's ValueError, exactly when
  along some axis their extents differ and neither extent is 1; it fails in no other way.
  Masks whose extents differ only along an axis where one of them has extent 1 are
  broadcast, and a grid comes back.
\<close>

theorem combine_masks_fails_iff:
  "(combine_masks a b = Inl ValueError \<longleftrightarrow>
      (nrows a \<noteq> nrows b \<and> nrows a \<noteq> 1 \<and> nrows b \<noteq> 1) \<or>
      (ncols a \<noteq> ncols b \<and> ncols a \<noteq> 1 \<and> ncols b \<noteq> 1)) \<and>
   ((\<exists>e. combine_masks a b = Inl e) \<longleftrightarrow> combine_masks a b = Inl ValueError) \<and>
   ((\<exists>g. combine_masks a b = Inr g) \<longleftrightarrow> combine_masks a b \<noteq> Inl ValueError)"
proof -
  have "(\<exists>g. bitwise_or a b = Inr g) \<longleftrightarrow> bitwise_or a b \<noteq> Inl ValueError"
  proof (cases "bitwise_or a b")
    case (Inl e)
    then have "e = ValueError" by (simp add: bitwise_or_fails_iff)
    with Inl show ?thesis by simp
  next
    case (Inr g)
    then show ?thesis by simp
  qed
  then show ?thesis
    unfolding combine_masks_def
    by (auto simp: bitwise_or_fails_iff broadcast_dim_None)
qed

theorem combine_masks_fails_iff_witness:
  "combine_masks (array [[True], [False], [False]]) (array [[False, False], [True, False]])
     = Inl ValueError"
  using combine_masks_fails_iff[of "array [[True], [False], [False]]"
      "array [[False, False], [True, False]]"]
  by (simp add: array_def)

text \<open>
  C4 as stated fails: a mask with one row and a mask with two rows have differing
  dimensions, and combining them returns a grid.
\<close>

theorem combine_masks_broadcasts_counterexample:
  "nrows (array [[True, False]]) \<noteq> nrows (array [[False, False], [True, False]]) \<and>
   combine_masks (array [[True, False]]) (array [[False, False], [True, False]])
     = Inr (array [[True, False], [True, False]])"
  by (simp add: combine_masks_def bitwise_or_def broadcast_dim_def broadcast_to_def stretch_def
      array_def)

text \<open>
  C6. Merging is monotonic in the number of masked pixels: for a mask the image already
  has and a newly computed mask of the same shape, the merged mask has at least as many
  true pixels as each of the two, hence at least their maximum.
\<close>

theorem keep_mask_monotonic:
  assumes "wf_array m" "wf_array n" "nrows m = nrows n" "ncols m = ncols n"
  shows "\<exists>r. keep_mask (Some m) n = Inr r \<and> np_sum m \<le> np_sum r \<and> np_sum n \<le> np_sum r \<and>
             max (np_sum m) (np_sum n) \<le> np_sum r"
proof -
  obtain r where r: "bitwise_or m n = Inr r"
    using bitwise_or_cells[OF assms] by blast
  have "np_sum m \<le> np_sum r" "np_sum n \<le> np_sum r"
    using np_sum_or_left[OF assms r] np_sum_or_right[OF assms r] by simp_all
  with r show ?thesis by (simp add: keep_mask_def)
qed

theorem keep_mask_monotonic_witness:
  "wf_array (array [[False, False], [False, True]]) \<and>
   wf_array (array [[False, True], [True, False]]) \<and>
   nrows (array [[False, False], [False, True]]) = nrows (array [[False, True], [True, False]]) \<and>
   ncols (array [[False, False], [False, True]]) = ncols (array [[False, True], [True, False]]) \<and>
   (\<exists>r. keep_mask (Some (array [[False, False], [False, True]])) (array [[False, True], [True, False]]) = Inr r \<and>
        np_sum (array [[False, False], [False, True]]) \<le> np_sum r \<and>
        np_sum (array [[False, True], [True, False]]) \<le> np_sum r \<and>
        max (np_sum (array [[False, False], [False, True]])) (np_sum (array [[False, True], [True, False]]))
          \<le> np_sum r)"
proof -
  let ?m = "array [[False, False], [False, True]]"
  let ?n = "array [[False, True], [True, False]]"
  have h: "wf_array ?m" "wf_array ?n" "nrows ?m = nrows ?n" "ncols ?m = ncols ?n"
    by (simp_all add: wf_array_def array_def)
  show ?thesis
    using keep_mask_monotonic[OF h] h by blast
qed

text \<open>
  C7. Combining is commutative, and on grids of one shape associative: combining \<open>a\<close>
  with the combination of \<open>b\<close> and \<open>c\<close> gives the grid that combining the combination of
  \<open>a\<close> and \<open>b\<close> with \<open>c\<close> gives.
\<close>

theorem combine_masks_commutative_associative:
  assumes "wf_array a" "wf_array b" "wf_array c"
    and "nrows a = nrows b" "ncols a = ncols b" "nrows b = nrows c" "ncols b = ncols c"
  shows "combine_masks a b = combine_masks b a \<and>
         (\<exists>bc ab r. combine_masks b c = Inr bc \<and> combine_masks a b = Inr ab \<and>
                     combine_masks a bc = Inr r \<and> combine_masks ab c = Inr r)"
  unfolding combine_masks_def
  using bitwise_or_commute[of a b] bitwise_or_assoc_same_shape[OF assms] by simp

theorem combine_masks_commutative_associative_witness:
  "wf_array (array [[False, True], [False, False]]) \<and>
   wf_array (array [[False, False], [True, False]]) \<and>
   wf_array (array [[True, False], [False, False]]) \<and>
   combine_masks (array [[False, True], [False, False]]) (array [[False, False], [True, False]])
     = combine_masks (array [[False, False], [True, False]]) (array [[False, True], [False, False]]) \<and>
   (\<exists>bc ab r.
      combine_masks (array [[False, False], [True, False]]) (array [[True, False], [False, False]]) = Inr bc \<and>
      combine_masks (array [[False, True], [False, False]]) (array [[False, False], [True, False]]) = Inr ab \<and>
      combine_masks (array [[False, True], [False, False]]) bc = Inr r \<and>
      combine_masks ab (array [[True, False], [False, False]]) = Inr r)"
proof -
  let ?a = "array [[False, True], [False, False]]"
  let ?b = "array [[False, False], [True, False]]"
  let ?c = "array [[True, False], [False, False]]"
  have h: "wf_array ?a" "wf_array ?b" "wf_array ?c"
    "nrows ?a = nrows ?b" "ncols ?a = ncols ?b" "nrows ?b = nrows ?c" "ncols ?b = ncols ?c"
    by (simp_all add: wf_array_def array_def)
  show ?thesis
    using combine_masks_commutative_associative[OF h] h(1-3) by blast
qed

text \<open>
  C8. Applying the merged mask is idempotent. For an image whose data and masks have the
  shape of the combined mask, one pass of the loop gives it a final mask; merging the same
  cosmic-ray mask and combined mask into that final mask leaves it as it is, so a second
  pass in which the detector reports the same cosmic-ray mask changes no file. A mask the
  image had before is kept: every pixel true in it is true in the final mask.
\<close>

theorem mask_merge_idempotent:
  assumes "files s f = Some c" "wf_array (combined_mask s)" "processable lac (combined_mask s) c"
  shows "\<exists>crmask overall fm s1.
     mask (lac c) = Some crmask \<and> bitwise_or crmask (combined_mask s) = Inr overall \<and>
     keep_mask (mask c) overall = Inr fm \<and>
     keep_mask (Some fm) overall = Inr fm \<and>
     (\<forall>m. mask c = Some m \<longrightarrow> (\<forall>i<nrows m. \<forall>j<ncols m. cell m i j \<longrightarrow> cell fm i j)) \<and>
     loop_body lac f s = (None, s1) \<and> files s1 f = Some (c\<lparr>mask := Some fm\<rparr>) \<and>
     (mask (lac (c\<lparr>mask := Some fm\<rparr>)) = mask (lac c) \<longrightarrow>
        (\<exists>s2. loop_body lac f s1 = (None, s2) \<and> files s2 = files s1))"
proof -
  let ?cm = "combined_mask s"
  from assms(3) obtain crmask where cr: "mask (lac c) = Some crmask" "wf_array crmask"
      "nrows crmask = nrows ?cm" "ncols crmask = ncols ?cm"
    and pre: "mask_fits ?cm (mask c)"
    and shape: "nrows (data c) = nrows ?cm" "ncols (data c) = ncols ?cm"
    by (auto simp: processable_def mask_fits_def same_shape_def)
  obtain overall where ov: "bitwise_or crmask ?cm = Inr overall" "wf_array overall"
      "nrows overall = nrows ?cm" "ncols overall = ncols ?cm"
    using bitwise_or_cells[OF cr(2) assms(2) cr(3,4)] cr(3,4) by auto
  have "\<exists>fm. keep_mask (mask c) overall = Inr fm \<and> keep_mask (Some fm) overall = Inr fm \<and>
          nrows fm = nrows ?cm \<and> ncols fm = ncols ?cm \<and>
          (\<forall>m. mask c = Some m \<longrightarrow> (\<forall>i<nrows m. \<forall>j<ncols m. cell m i j \<longrightarrow> cell fm i j))"
  proof (cases "mask c")
    case None
    then show ?thesis
      using bitwise_or_self[OF ov(2)] ov(3,4) by (simp add: keep_mask_def)
  next
    case (Some m)
    then have m: "wf_array m" "nrows m = nrows overall" "ncols m = ncols overall"
      using pre ov by (simp_all add: mask_fits_def same_shape_def)
    obtain fm where fm: "bitwise_or m overall = Inr fm" "nrows fm = nrows m" "ncols fm = ncols m"
      and fm_cells: "\<forall>i<nrows m. \<forall>j<ncols m. cell fm i j = (cell m i j \<or> cell overall i j)"
      using bitwise_or_cells[OF m(1) ov(2) m(2,3)] by blast
    have "bitwise_or fm overall = Inr fm"
      using bitwise_or_absorb[OF m(1) ov(2) m(2,3) fm(1)] .
    then show ?thesis
      using Some fm fm_cells m(2,3) ov(3,4) by (simp add: keep_mask_def)
  qed
  then obtain fm where fm: "keep_mask (mask c) overall = Inr fm" "keep_mask (Some fm) overall = Inr fm"
    and fm_shape: "nrows fm = nrows ?cm" "ncols fm = ncols ?cm"
    and kept: "\<forall>m. mask c = Some m \<longrightarrow> (\<forall>i<nrows m. \<forall>j<ncols m. cell m i j \<longrightarrow> cell fm i j)"
    by blast
  have set: "set_mask c fm = Inr (c\<lparr>mask := Some fm\<rparr>)"
    "set_mask (c\<lparr>mask := Some fm\<rparr>) fm = Inr (c\<lparr>mask := Some fm\<rparr>)"
    using fm_shape shape by (simp_all add: set_mask_def)
  define s1 where "s1 = s\<lparr>trace := trace s @ [Printed (''Working on file '' @ f), Wrote f True],
                 files := (files s)(f \<mapsto> c\<lparr>mask := Some fm\<rparr>)\<rparr>"
  have once: "loop_body lac f s = (None, s1)"
    using assms(1) cr(1) ov(1) fm(1) set(1)
    by (simp add: loop_body_def Let_def overall_mask_def ccd_write_overwrite s1_def)
  have s1: "files s1 f = Some (c\<lparr>mask := Some fm\<rparr>)" "combined_mask s1 = ?cm"
    by (simp_all add: s1_def)
  have twice: "\<exists>s2. loop_body lac f s1 = (None, s2) \<and> files s2 = files s1"
    if same: "mask (lac (c\<lparr>mask := Some fm\<rparr>)) = mask (lac c)"
  proof -
    have "loop_body lac f s1 =
      (None, s1\<lparr>trace := trace s1 @ [Printed (''Working on file '' @ f), Wrote f True],
                 files := (files s1)(f \<mapsto> c\<lparr>mask := Some fm\<rparr>)\<rparr>)"
      using s1 same cr(1) ov(1) fm(2) set(2)
      by (simp add: loop_body_def Let_def overall_mask_def ccd_write_overwrite)
    moreover have "(files s1)(f \<mapsto> c\<lparr>mask := Some fm\<rparr>) = files s1"
      using s1(1) by (rule fun_upd_idem)
    ultimately show ?thesis by simp
  qed
  show ?thesis
    using cr(1) ov(1) fm kept once s1(1) twice by blast
qed

theorem mask_merge_idempotent_witness:
  "files example_masked_session ''masked.fits'' = Some example_masked \<and>
   wf_array (combined_mask example_masked_session) \<and>
   processable quiet_lacosmic (combined_mask example_masked_session) example_masked \<and>
   mask example_masked = Some (array [[False, False], [False, True]]) \<and>
   mask (quiet_lacosmic (example_masked\<lparr>mask := Some (array [[False, True], [True, True]])\<rparr>))
     = mask (quiet_lacosmic example_masked) \<and>
   (\<exists>s1 s2. loop_body quiet_lacosmic ''masked.fits'' example_masked_session = (None, s1) \<and>
      files s1 ''masked.fits''
        = Some (example_masked\<lparr>mask := Some (array [[False, True], [True, True]])\<rparr>) \<and>
      loop_body quiet_lacosmic ''masked.fits'' s1 = (None, s2) \<and> files s2 = files s1)"
proof -
  let ?s = example_masked_session
  let ?fm = "array [[False, True], [True, True]]"
  have h1: "files ?s ''masked.fits'' = Some example_masked"
    by (simp add: example_masked_session_def)
  have h2: "wf_array (combined_mask ?s)"
    by (simp add: example_masked_session_def example_combined_def wf_array_def array_def)
  have h3: "processable quiet_lacosmic (combined_mask ?s) example_masked"
    by (simp add: processable_def mask_fits_def same_shape_def wf_array_def array_def
        quiet_lacosmic_def example_masked_def example_masked_session_def example_combined_def)
  have h4: "mask example_masked = Some (array [[False, False], [False, True]])"
    by (simp add: example_masked_def)
  have h5: "mask (quiet_lacosmic (example_masked\<lparr>mask := Some ?fm\<rparr>)) = mask (quiet_lacosmic example_masked)"
    by (simp add: quiet_lacosmic_def)
  from mask_merge_idempotent[OF h1 h2 h3]
  obtain crmask overall fm s1 where
    cr: "mask (quiet_lacosmic example_masked) = Some crmask"
    and ov: "bitwise_or crmask (combined_mask ?s) = Inr overall"
    and fm: "keep_mask (mask example_masked) overall = Inr fm"
    and once: "loop_body quiet_lacosmic ''masked.fits'' ?s = (None, s1)"
      "files s1 ''masked.fits'' = Some (example_masked\<lparr>mask := Some fm\<rparr>)"
    and twice: "mask (quiet_lacosmic (example_masked\<lparr>mask := Some fm\<rparr>)) = mask (quiet_lacosmic example_masked)
        \<longrightarrow> (\<exists>s2. loop_body quiet_lacosmic ''masked.fits'' s1 = (None, s2) \<and> files s2 = files s1)"
    by blast
  have "crmask = array [[False, False], [False, False]]"
    using cr by (simp add: quiet_lacosmic_def)
  then have "overall = array [[False, True], [True, False]]"
    using ov by (simp add: example_masked_session_def example_combined_def bitwise_or_def
        broadcast_dim_def broadcast_to_def stretch_def array_def)
  then have "fm = ?fm"
    using fm h4 by (simp add: keep_mask_def bitwise_or_def
        broadcast_dim_def broadcast_to_def stretch_def array_def)
  with once twice h5 have "\<exists>s1 s2. loop_body quiet_lacosmic ''masked.fits'' ?s = (None, s1) \<and>
      files s1 ''masked.fits'' = Some (example_masked\<lparr>mask := Some ?fm\<rparr>) \<and>
      loop_body quiet_lacosmic ''masked.fits'' s1 = (None, s2) \<and> files s2 = files s1"
    by blast
  with h1 h2 h3 h4 h5 show ?thesis by blast
qed

text \<open>
  C10. The loop changes nothing but masks: whatever the outcome of the run, every image of
  the directory keeps its pixel values, no file appears or disappears, and the variable
  \<^verbatim>\<open>combined_mask\<close> keeps its value. The pixel values the detector returns are not
  used: two detectors that return the same masks give the same run.
\<close>

theorem ccds_loop_frame:
  "only_masks_changed s (snd (ccds_loop lac names s)) \<and>
   ((\<forall>c. mask (lac' c) = mask (lac c)) \<longrightarrow> ccds_loop lac' names s = ccds_loop lac names s)"
  using ccds_loop_only_masks_changed[of s lac names] ccds_loop_detector_data[of lac' lac names s]
  by blast

theorem ccds_loop_frame_witness:
  "(\<forall>c. mask (c\<lparr>mask := Some example_crmask\<rparr>) = mask (example_lacosmic c)) \<and>
   ccds_loop (\<lambda>c. c\<lparr>mask := Some example_crmask\<rparr>) [''science.fits''] example_session
     = ccds_loop example_lacosmic [''science.fits''] example_session \<and>
   combined_mask (snd (ccds_loop example_lacosmic [''science.fits''] example_session))
     = example_combined \<and>
   map_option data
       (files (snd (ccds_loop example_lacosmic [''science.fits''] example_session)) ''science.fits'')
     = Some (array [[900, 7], [1, 2]])"
proof -
  let ?s' = "snd (ccds_loop example_lacosmic [''science.fits''] example_session)"
  note inst = ccds_loop_frame[of example_session example_lacosmic "[''science.fits'']"
      "\<lambda>c. c\<lparr>mask := Some example_crmask\<rparr>"]
  have agree: "\<forall>c::int ccd. mask (c\<lparr>mask := Some example_crmask\<rparr>) = mask (example_lacosmic c)"
    by (simp add: example_lacosmic_def)
  with inst have same: "ccds_loop (\<lambda>c. c\<lparr>mask := Some example_crmask\<rparr>) [''science.fits''] example_session
     = ccds_loop example_lacosmic [''science.fits''] example_session"
    by blast
  from inst have frame: "only_masks_changed example_session ?s'" by blast
  then have cm: "combined_mask ?s' = example_combined"
    by (simp add: only_masks_changed_def example_session_def)
  have "files ?s' ''science.fits'' \<noteq> None"
    using only_masks_changed_exists[OF frame, of "''science.fits''"]
    by (simp add: example_session_def)
  then obtain c' where c': "files ?s' ''science.fits'' = Some c'" by blast
  with frame obtain c m where "files example_session ''science.fits'' = Some c" "c' = c\<lparr>mask := m\<rparr>"
    by (auto simp: only_masks_changed_def split: option.splits dest!: spec[of _ "''science.fits''"])
  then have "data c' = array [[900, 7], [1, 2]]"
    by (auto simp: example_session_def)
  with c' have "map_option data (files ?s' ''science.fits'') = Some (array [[900, 7], [1, 2]])"
    by simp
  with agree same cm show ?thesis by blast
qed

end
